theory Spec2Isabelle
  imports Main
begin

section \<open>Data model of cmd/pbackend/statuser.go\<close>

text \<open>
  The statuser consumes availability-check requests, resolves the authentication of the
  source, hands the source to one worker per provider and sends the results in batches.
  Types that the file imports from other packages (errors, principals, the wire message)
  are carried as strings; the collaborators it calls are fields of the record \<open>env\<close>.
\<close>

type_synonym err = string
type_synonym principal = string
type_synonym GenericMessage = string
type_synonym GCPClient = nat

text \<open>\<open>models.ProviderType\<close>: the five cases of the switch in \<open>processMessage\<close>.\<close>

datatype ProviderType =
  ProviderTypeUnknown | ProviderTypeNoop | ProviderTypeAWS | ProviderTypeAzure | ProviderTypeGCP

text \<open>
  \<open>kafka.StatusType\<close>. \<open>StatusZero\<close> is the zero value of the type, which the struct
  literal \<open>kafka.SourceResult{...}\<close> leaves in \<open>Status\<close> until a branch assigns it.
\<close>

datatype StatusType = StatusZero | StatusAvaliable | StatusUnavailable

record Authentication =
  ProviderTypeOf :: ProviderType
  SourceApplictionID :: string
  Payload :: string

record SourceInfo =
  Authentication :: Authentication
  SourceApplicationID :: string
  Identity :: principal

record SourceResult =
  ResourceID :: string
  SrIdentity :: principal
  ResourceType :: string
  Status :: StatusType
  Err :: "err option"

text \<open>The value a receive from a closed, empty \<open>chan kafka.SourceResult\<close> yields.\<close>

definition zeroSourceResult :: SourceResult where
  "zeroSourceResult =
     \<lparr>ResourceID = [], SrIdentity = [], ResourceType = [], Status = StatusZero, Err = None\<rparr>"

definition ChannelBuffer :: nat where
  "ChannelBuffer = 32"

text \<open>
  The collaborators. A Go call returning \<open>(v, error)\<close> is a sum or a pair: the sources
  client's \<open>GetAuthentication\<close> is used only on its error or only on its value, so it is a
  sum; \<open>GetGCPClient\<close> returns a client and an error that the worker reads independently
  of each other, so it is a pair (\<open>None\<close> is the nil client, \<open>None\<close> the nil error).
\<close>

record env =
  NewAvailabilityStatusMessage :: "GenericMessage \<Rightarrow> err + string"
  GetSourcesClient :: "string \<Rightarrow> err option"
  GetAuthentication :: "string \<Rightarrow> err + Authentication"
  IsNotFoundErr :: "err \<Rightarrow> bool"
  IdentityOf :: "GenericMessage \<Rightarrow> principal"
  GetEC2Client :: "Authentication \<Rightarrow> err option"
  GetGCPClient :: "Authentication \<Rightarrow> GCPClient option \<times> err option"
  ListAllRegions :: "GCPClient \<Rightarrow> err option"
  ToGenericMessage :: "SourceResult \<Rightarrow> err + GenericMessage"
  KafkaSend :: "GenericMessage list \<Rightarrow> err option"

section \<open>Effects\<close>

text \<open>
  Every function of the file is modelled by the sequence of effects it performs, in
  program order: log records, metric increments, channel sends, calls of the outbound
  stream, and a panic, after which nothing follows.
\<close>

datatype level = Trace | Warn | Info

datatype panic = NilDereference | SendOnClosedChannel | MakeSliceCapOutOfRange

text \<open>
  The three provider channels \<open>chAws\<close>, \<open>chAzure\<close>, \<open>chGcp\<close> and the goroutines that range
  over them are named by one type.
\<close>

datatype worker = AWS | Azure | GCP

datatype effect =
    Log level string
  | IncTotalInvalidAvailabilityCheckReqs
  | IncTotalSentAvailabilityCheckReqs ProviderType StatusType "err option"
  | Enqueue worker SourceInfo
  | SendResult SourceResult
  | CallListAllRegions "GCPClient option"
  | Transmit "GenericMessage list"
  | Panic panic

fun is_Log :: "effect \<Rightarrow> bool" where
  "is_Log (Log l m) = True"
| "is_Log e = False"

fun is_Warn :: "effect \<Rightarrow> bool" where
  "is_Warn (Log l m) = (l = Warn)"
| "is_Warn e = False"

fun is_Enqueue :: "effect \<Rightarrow> bool" where
  "is_Enqueue (Enqueue p s) = True"
| "is_Enqueue e = False"

fun is_SendResult :: "effect \<Rightarrow> bool" where
  "is_SendResult (SendResult r) = True"
| "is_SendResult e = False"

fun is_Transmit :: "effect \<Rightarrow> bool" where
  "is_Transmit (Transmit ms) = True"
| "is_Transmit e = False"

fun is_Panic :: "effect \<Rightarrow> bool" where
  "is_Panic (Panic p) = True"
| "is_Panic e = False"

text \<open>The results an effect sequence puts on \<open>chSend\<close>, in order.\<close>

fun sentResults :: "effect list \<Rightarrow> SourceResult list" where
  "sentResults [] = []"
| "sentResults (SendResult r # es) = r # sentResults es"
| "sentResults (e # es) = sentResults es"

text \<open>The sources an effect sequence puts on the channel of worker \<open>p\<close>, in order.\<close>

fun enqueuedOn :: "worker \<Rightarrow> effect list \<Rightarrow> SourceInfo list" where
  "enqueuedOn p [] = []"
| "enqueuedOn p (Enqueue q s # es) = (if q = p then s # enqueuedOn p es else enqueuedOn p es)"
| "enqueuedOn p (e # es) = enqueuedOn p es"

text \<open>The batches an effect sequence hands to \<open>kafka.Send\<close>, in order.\<close>

fun transmitted :: "effect list \<Rightarrow> GenericMessage list list" where
  "transmitted [] = []"
| "transmitted (Transmit ms # es) = ms # transmitted es"
| "transmitted (e # es) = transmitted es"

section \<open>processMessage\<close>

text \<open>
  Lines 65-118. The message is decoded, the sources client is obtained, the
  authentication is fetched; a failure of any of the three logs a warning and returns, and
  only the third increments the metric of invalid requests. The switch has a case for
  each provider type and no default.
\<close>

definition dispatch :: "ProviderType \<Rightarrow> SourceInfo \<Rightarrow> effect list" where
  "dispatch p s =
     (case p of
        ProviderTypeAWS \<Rightarrow> [Enqueue AWS s]
      | ProviderTypeAzure \<Rightarrow> [Enqueue Azure s]
      | ProviderTypeGCP \<Rightarrow> [Enqueue GCP s]
      | ProviderTypeNoop \<Rightarrow> []
      | ProviderTypeUnknown \<Rightarrow> [Log Warn ''Authentication provider type is unknown''])"

definition processMessage :: "env \<Rightarrow> GenericMessage \<Rightarrow> effect list" where
  "processMessage E message =
     (case NewAvailabilityStatusMessage E message of
        Inl e \<Rightarrow> [Log Warn ''Could not get availability status message'']
      | Inr sourceId \<Rightarrow>
          Log Trace (''Received a message from sources to be processed with source id '' @ sourceId) #
          (case GetSourcesClient E sourceId of
             Some e \<Rightarrow> [Log Warn ''Could not get sources client'']
           | None \<Rightarrow>
               (case GetAuthentication E sourceId of
                  Inl e \<Rightarrow>
                    IncTotalInvalidAvailabilityCheckReqs #
                    (if IsNotFoundErr E e then [Log Warn ''Not found error from sources'']
                     else [Log Warn ''Could not get authentication''])
                | Inr authentication \<Rightarrow>
                    dispatch (ProviderTypeOf authentication)
                      \<lparr>Authentication = authentication,
                       SourceApplicationID = SourceApplictionID authentication,
                       Identity = IdentityOf E message\<rparr>)))"

section \<open>The provider workers\<close>

text \<open>
  Lines 120-207. Each worker ranges over its channel and runs one closure per source
  inside \<open>metrics.ObserveAvailabilityCheckReqsDuration\<close>, which times the closure and runs
  it once. The three functions below are the closures; \<open>rangeLoop\<close> is the \<open>for ... range\<close>
  around them, over the sources the channel delivers before it is closed and drained.
\<close>

definition newSourceResult :: "SourceInfo \<Rightarrow> SourceResult" where
  "newSourceResult s =
     \<lparr>ResourceID = SourceApplicationID s, SrIdentity = Identity s,
      ResourceType = ''Application'', Status = StatusZero, Err = None\<rparr>"

definition checkAzure :: "env \<Rightarrow> SourceInfo \<Rightarrow> effect list" where
  "checkAzure E s =
     (let sr = (newSourceResult s)\<lparr>Status := StatusAvaliable\<rparr>
      in [Log Trace (''Checking Azure source availability status '' @ SourceApplicationID s),
          SendResult sr,
          IncTotalSentAvailabilityCheckReqs ProviderTypeAzure (Status sr) None])"

definition checkAWS :: "env \<Rightarrow> SourceInfo \<Rightarrow> effect list" where
  "checkAWS E s =
     Log Trace (''Checking AWS source availability status '' @ SourceApplicationID s) #
     (let sr = newSourceResult s; err = GetEC2Client E (Authentication s)
      in if err \<noteq> None then
           (let sr1 = sr\<lparr>Status := StatusUnavailable, Err := err\<rparr>
            in [Log Warn ''Could not get aws assumed client'', SendResult sr1,
                IncTotalSentAvailabilityCheckReqs ProviderTypeAWS (Status sr1) err])
         else
           (let sr1 = sr\<lparr>Status := StatusAvaliable\<rparr>
            in [SendResult sr1,
                IncTotalSentAvailabilityCheckReqs ProviderTypeAWS (Status sr1) err]))"

text \<open>
  The GCP closure (lines 178-205): the branch for a failed \<open>GetGCPClient\<close> sends the
  result and does not return, so line 192 runs on every path. A method call on the nil
  interface value panics.
\<close>

definition checkGCP :: "env \<Rightarrow> SourceInfo \<Rightarrow> effect list" where
  "checkGCP E s =
     Log Trace (''Checking GCP source availability status '' @ SourceApplicationID s) #
     (let sr = newSourceResult s;
          (gcpClient, err) = GetGCPClient E (Authentication s);
          sr1 = (if err \<noteq> None then sr\<lparr>Status := StatusUnavailable, Err := err\<rparr> else sr);
          first = (if err \<noteq> None then [Log Warn ''Could not get gcp client'', SendResult sr1]
                   else [])
      in first @ CallListAllRegions gcpClient #
         (case gcpClient of
            None \<Rightarrow> [Panic NilDereference]
          | Some c \<Rightarrow>
              (let err2 = ListAllRegions E c
               in if err2 \<noteq> None then
                    (let sr2 = sr1\<lparr>Status := StatusUnavailable, Err := err2\<rparr>
                     in [Log Warn ''Could not list gcp regions'', SendResult sr2,
                         IncTotalSentAvailabilityCheckReqs ProviderTypeGCP (Status sr2) err2])
                  else
                    (let sr2 = sr1\<lparr>Status := StatusAvaliable\<rparr>
                     in [SendResult sr2,
                         IncTotalSentAvailabilityCheckReqs ProviderTypeGCP (Status sr2) err2]))))"

text \<open>The closure of each worker.\<close>

fun check :: "worker \<Rightarrow> env \<Rightarrow> SourceInfo \<Rightarrow> effect list" where
  "check AWS = checkAWS"
| "check Azure = checkAzure"
| "check GCP = checkGCP"

text \<open>
  The \<open>for s := range ch\<close> of a worker over the sources its channel delivers: one closure
  per source, in order; a panic ends the goroutine and the process.
\<close>

fun rangeLoop :: "(SourceInfo \<Rightarrow> effect list) \<Rightarrow> SourceInfo list \<Rightarrow> effect list" where
  "rangeLoop body [] = []"
| "rangeLoop body (s # ss) =
     (let es = body s in if list_ex is_Panic es then es else es @ rangeLoop body ss)"

section \<open>sendResults\<close>

text \<open>
  Lines 209-261. The goroutine owns the slice \<open>messages\<close> and selects among a receive
  from \<open>chSend\<close>, the ticker and \<open>ctx.Done()\<close>. The state is the slice while the loop runs
  and \<open>SExited\<close> after the \<open>return\<close> of the third case; each case of the select is one
  equation of \<open>sendResultsStep\<close>. The receive has no \<open>ok\<close> result, so a closed, empty
  channel delivers the zero \<open>SourceResult\<close>.
\<close>

datatype sender = SRunning "GenericMessage list" | SExited

datatype selected = FromChSend SourceResult | FromTicker | FromCtxDone

text \<open>The trace record, \<open>kafka.Send(ctx, messages...)\<close> and the warning when it fails.\<close>

definition send :: "env \<Rightarrow> string \<Rightarrow> GenericMessage list \<Rightarrow> effect list" where
  "send E reason messages =
     Log Trace (''Sending source availability status messages ('' @ reason @ '')'') #
     Transmit messages #
     (case KafkaSend E messages of
        Some e \<Rightarrow>
          [Log Warn (''Could not send source availability status messages ('' @ reason @ '')'')]
      | None \<Rightarrow> [])"

fun sendResultsStep ::
  "env \<Rightarrow> int \<Rightarrow> GenericMessage list \<Rightarrow> selected \<Rightarrow> sender \<times> effect list" where
  "sendResultsStep E batchSize messages (FromChSend sr) =
     (case ToGenericMessage E sr of
        Inl e \<Rightarrow> (SRunning messages, [Log Warn ''Could not generate generic message''])
      | Inr msg \<Rightarrow>
          (let messages1 = messages @ [msg]
           in if int (length messages1) \<ge> batchSize
              then (SRunning [], send E ''full buffer'' messages1)
              else (SRunning messages1, [])))"
| "sendResultsStep E batchSize messages FromTicker =
     (if length messages > 0 then (SRunning [], send E ''tick'' messages)
      else (SRunning messages, []))"
| "sendResultsStep E batchSize messages FromCtxDone =
     (SExited, if length messages > 0 then send E ''cancel'' messages else [])"

fun sendResultsLoop :: "env \<Rightarrow> int \<Rightarrow> sender \<Rightarrow> selected list \<Rightarrow> sender \<times> effect list" where
  "sendResultsLoop E batchSize st [] = (st, [])"
| "sendResultsLoop E batchSize SExited (ev # evs) = (SExited, [])"
| "sendResultsLoop E batchSize (SRunning messages) (ev # evs) =
     (let (st1, out1) = sendResultsStep E batchSize messages ev;
          (st2, out2) = sendResultsLoop E batchSize st1 evs
      in (st2, out1 @ out2))"

text \<open>
  \<open>sendResults\<close> on the sequence of cases its select takes. \<open>make\<close> with a negative
  capacity panics before the loop is entered.
\<close>

definition sendResults :: "env \<Rightarrow> int \<Rightarrow> selected list \<Rightarrow> sender \<times> effect list" where
  "sendResults E batchSize evs =
     (if batchSize < 0 then (SExited, [Panic MakeSliceCapOutOfRange])
      else sendResultsLoop E batchSize (SRunning []) evs)"

section \<open>The process: goroutines, channels and the shutdown sequence of statuser\<close>

text \<open>
  Lines 51-59 and 319-373. A channel is its buffered elements and whether it is closed.
  A goroutine that runs a function of the file is idle at its receive, busy with the
  effects that remain of the current call, or has returned. \<open>main\<close> is at one of the
  statements of lines 350-369.
\<close>

record 'a chan =
  buf :: "'a list"
  closed :: bool

datatype task = TIdle | TBusy "effect list" | TExited

datatype mainpc =
    MSelect | MCancel | MWaitReceiver | MCloseAws | MCloseAzure | MCloseGcp
  | MWaitProcessing | MCloseSend | MWaitSender | MStopped

record sys =
  pc :: mainpc
  signalled :: bool
  cancelled :: bool
  inbound :: "GenericMessage list"
  consumer :: task
  queue :: "worker \<Rightarrow> SourceInfo chan"
  chSend :: "SourceResult chan"
  workers :: "worker \<Rightarrow> task"
  sender :: sender
  observed :: "effect list"
  crashed :: "panic option"

definition emptyChan :: "'a chan" where
  "emptyChan = \<lparr>buf = [], closed = False\<rparr>"

definition initial :: "GenericMessage list \<Rightarrow> sys" where
  "initial ms =
     \<lparr>pc = MSelect, signalled = False, cancelled = False, inbound = ms, consumer = TIdle,
      queue = (\<lambda>w. emptyChan), chSend = emptyChan, workers = (\<lambda>w. TIdle),
      sender = SRunning [], observed = [], crashed = None\<rparr>"

definition statuserBatchSize :: int where
  "statuserBatchSize = 1024"

definition continue :: "effect list \<Rightarrow> task" where
  "continue es = (if es = [] then TIdle else TBusy es)"

text \<open>
  One step of \<open>main\<close>: the select of line 350 needs the signal or the return of the
  consumer; each \<open>Wait\<close> needs its wait group at zero; the other statements always run.
\<close>

definition mainStep :: "sys \<Rightarrow> sys option" where
  "mainStep s =
     (case pc s of
        MSelect \<Rightarrow>
          (if signalled s \<or> consumer s = TExited then Some (s\<lparr>pc := MCancel\<rparr>) else None)
      | MCancel \<Rightarrow> Some (s\<lparr>cancelled := True, pc := MWaitReceiver\<rparr>)
      | MWaitReceiver \<Rightarrow>
          (if consumer s = TExited then Some (s\<lparr>pc := MCloseAws\<rparr>) else None)
      | MCloseAws \<Rightarrow>
          Some (s\<lparr>queue := (queue s)(AWS := (queue s AWS)\<lparr>closed := True\<rparr>), pc := MCloseAzure\<rparr>)
      | MCloseAzure \<Rightarrow>
          Some (s\<lparr>queue := (queue s)(Azure := (queue s Azure)\<lparr>closed := True\<rparr>), pc := MCloseGcp\<rparr>)
      | MCloseGcp \<Rightarrow>
          Some (s\<lparr>queue := (queue s)(GCP := (queue s GCP)\<lparr>closed := True\<rparr>),
                 pc := MWaitProcessing\<rparr>)
      | MWaitProcessing \<Rightarrow>
          (if workers s AWS = TExited \<and> workers s Azure = TExited \<and> workers s GCP = TExited
           then Some (s\<lparr>pc := MCloseSend\<rparr>) else None)
      | MCloseSend \<Rightarrow> Some (s\<lparr>chSend := (chSend s)\<lparr>closed := True\<rparr>, pc := MWaitSender\<rparr>)
      | MWaitSender \<Rightarrow> (if sender s = SExited then Some (s\<lparr>pc := MStopped\<rparr>) else None)
      | MStopped \<Rightarrow> None)"

text \<open>
  One effect of the consumer goroutine inside \<open>processMessage\<close>. A send on a closed
  channel panics; a send on a full channel blocks (the step is not enabled).
\<close>

definition consumerStep :: "sys \<Rightarrow> sys option" where
  "consumerStep s =
     (case consumer s of
        TBusy (e # es) \<Rightarrow>
          (case e of
             Enqueue w si \<Rightarrow>
               (if closed (queue s w) then Some (s\<lparr>crashed := Some SendOnClosedChannel\<rparr>)
                else if length (buf (queue s w)) \<ge> ChannelBuffer then None
                else Some (s\<lparr>queue := (queue s)(w := (queue s w)\<lparr>buf := buf (queue s w) @ [si]\<rparr>),
                            consumer := continue es\<rparr>))
           | Panic p \<Rightarrow> Some (s\<lparr>crashed := Some p\<rparr>)
           | _ \<Rightarrow> Some (s\<lparr>observed := observed s @ [e], consumer := continue es\<rparr>))
      | _ \<Rightarrow> None)"

text \<open>One effect of a worker inside its closure.\<close>

definition workerStep :: "worker \<Rightarrow> sys \<Rightarrow> sys option" where
  "workerStep w s =
     (case workers s w of
        TBusy (e # es) \<Rightarrow>
          (case e of
             SendResult r \<Rightarrow>
               (if closed (chSend s) then Some (s\<lparr>crashed := Some SendOnClosedChannel\<rparr>)
                else if length (buf (chSend s)) \<ge> ChannelBuffer then None
                else Some (s\<lparr>chSend := (chSend s)\<lparr>buf := buf (chSend s) @ [r]\<rparr>,
                            workers := (workers s)(w := continue es)\<rparr>))
           | Panic p \<Rightarrow> Some (s\<lparr>crashed := Some p\<rparr>)
           | _ \<Rightarrow> Some (s\<lparr>observed := observed s @ [e], workers := (workers s)(w := continue es)\<rparr>))
      | _ \<Rightarrow> None)"

text \<open>
  The \<open>range\<close> of a worker: the next source when one is buffered, the end of the loop when
  the channel is closed and empty, blocked otherwise.
\<close>

definition workerReceive :: "env \<Rightarrow> worker \<Rightarrow> sys \<Rightarrow> sys option" where
  "workerReceive E w s =
     (case workers s w of
        TIdle \<Rightarrow>
          (case buf (queue s w) of
             si # rest \<Rightarrow>
               Some (s\<lparr>queue := (queue s)(w := (queue s w)\<lparr>buf := rest\<rparr>),
                      workers := (workers s)(w := continue (check w E si))\<rparr>)
           | [] \<Rightarrow>
               (if closed (queue s w) then Some (s\<lparr>workers := (workers s)(w := TExited)\<rparr>)
                else None))
      | _ \<Rightarrow> None)"

text \<open>The sender takes one case of its select.\<close>

definition senderTake :: "env \<Rightarrow> selected \<Rightarrow> sys \<Rightarrow> sys" where
  "senderTake E ev s =
     (case sender s of
        SRunning messages \<Rightarrow>
          (let (st, out) = sendResultsStep E statuserBatchSize messages ev
           in s\<lparr>sender := st, observed := observed s @ out\<rparr>)
      | SExited \<Rightarrow> s)"

definition senderReceive :: "env \<Rightarrow> sys \<Rightarrow> sys option" where
  "senderReceive E s =
     (if sender s = SExited then None
      else (case buf (chSend s) of
              r # rest \<Rightarrow> Some (senderTake E (FromChSend r) (s\<lparr>chSend := (chSend s)\<lparr>buf := rest\<rparr>\<rparr>))
            | [] \<Rightarrow>
                (if closed (chSend s) then Some (senderTake E (FromChSend zeroSourceResult) s)
                 else None)))"

text \<open>
  The steps of the process. \<open>kafka.Consume\<close> takes the next inbound message while it
  runs, calls \<open>processMessage\<close> on it in its own goroutine, and may return between two
  messages at any time (after the cancellation, or on its own, which line 353 handles).
  The ticker may fire at any time; \<open>ctx.Done()\<close> is ready once \<open>cancelCtx\<close> is cancelled,
  and the select of \<open>sendResults\<close> may take any ready case. After a panic the process is
  gone and nothing is enabled. The second \<open>consumerCancelFunc()\<close> of line 372 changes
  nothing and is left out.
\<close>

datatype action =
    Signal | Main | Fetch | ConsumerStep | ConsumerReturn
  | Receive worker | WorkerStep worker
  | SenderReceive | SenderTick | SenderDone

definition fire :: "env \<Rightarrow> action \<Rightarrow> sys \<Rightarrow> sys option" where
  "fire E a s =
     (if crashed s \<noteq> None then None
      else (case a of
              Signal \<Rightarrow> Some (s\<lparr>signalled := True\<rparr>)
            | Main \<Rightarrow> mainStep s
            | Fetch \<Rightarrow>
                (case (consumer s, inbound s) of
                   (TIdle, m # ms) \<Rightarrow>
                     Some (s\<lparr>inbound := ms, consumer := continue (processMessage E m)\<rparr>)
                 | _ \<Rightarrow> None)
            | ConsumerStep \<Rightarrow> consumerStep s
            | ConsumerReturn \<Rightarrow>
                (if consumer s = TIdle then Some (s\<lparr>consumer := TExited\<rparr>) else None)
            | Receive w \<Rightarrow> workerReceive E w s
            | WorkerStep w \<Rightarrow> workerStep w s
            | SenderReceive \<Rightarrow> senderReceive E s
            | SenderTick \<Rightarrow>
                (if sender s = SExited then None else Some (senderTake E FromTicker s))
            | SenderDone \<Rightarrow>
                (if sender s \<noteq> SExited \<and> cancelled s
                 then Some (senderTake E FromCtxDone s) else None)))"

fun run :: "env \<Rightarrow> action list \<Rightarrow> sys \<Rightarrow> sys option" where
  "run E [] s = Some s"
| "run E (a # as) s = (case fire E a s of None \<Rightarrow> None | Some s1 \<Rightarrow> run E as s1)"

text \<open>
  The position of \<open>main\<close> in the shutdown sequence as a number, and the invariant of
  the process that the proofs of the shutdown properties carry through every step.
\<close>

fun rank :: "mainpc \<Rightarrow> nat" where
  "rank MSelect = 0"
| "rank MCancel = 1"
| "rank MWaitReceiver = 2"
| "rank MCloseAws = 3"
| "rank MCloseAzure = 4"
| "rank MCloseGcp = 5"
| "rank MWaitProcessing = 6"
| "rank MCloseSend = 7"
| "rank MWaitSender = 8"
| "rank MStopped = 9"

fun pending :: "task \<Rightarrow> effect list" where
  "pending (TBusy es) = es"
| "pending t = []"

definition workerInv :: "sys \<Rightarrow> worker \<Rightarrow> nat \<Rightarrow> bool" where
  "workerInv s w k =
     ((closed (queue s w) \<longrightarrow> k \<le> rank (pc s)) \<and>
      (workers s w = TExited \<longrightarrow> closed (queue s w) \<and> buf (queue s w) = []) \<and>
      (7 \<le> rank (pc s) \<longrightarrow> workers s w = TExited) \<and>
      Panic SendOnClosedChannel \<notin> set (pending (workers s w)))"

definition shutdownInv :: "sys \<Rightarrow> bool" where
  "shutdownInv s =
     ((3 \<le> rank (pc s) \<longrightarrow> consumer s = TExited) \<and>
      workerInv s AWS 4 \<and> workerInv s Azure 5 \<and> workerInv s GCP 6 \<and>
      (closed (chSend s) \<longrightarrow> 8 \<le> rank (pc s)) \<and>
      crashed s \<noteq> Some SendOnClosedChannel \<and>
      \<not> list_ex is_Panic (pending (consumer s)))"

section \<open>Concrete collaborators and inputs\<close>

text \<open>
  A sources service that knows the AWS source \<open>1\<close>, the Azure source \<open>2\<close>, the GCP source
  \<open>3\<close>, a no-op source \<open>4\<close> and a source \<open>5\<close> of unknown type, answers not-found for the
  source \<open>404\<close> and fails otherwise; providers that are all reachable; an encoder that
  rejects the resource \<open>bad\<close>; an outbound stream that accepts every batch.
\<close>

definition auth :: "ProviderType \<Rightarrow> string \<Rightarrow> Authentication" where
  "auth p a = \<lparr>ProviderTypeOf = p, SourceApplictionID = a, Payload = ''arn''\<rparr>"

definition env0 :: env where
  "env0 =
     \<lparr>NewAvailabilityStatusMessage = (\<lambda>m. if m = [] then Inl ''empty message'' else Inr m),
      GetSourcesClient = (\<lambda>sid. None),
      GetAuthentication =
        (\<lambda>sid. if sid = ''1'' then Inr (auth ProviderTypeAWS ''app1'')
               else if sid = ''2'' then Inr (auth ProviderTypeAzure ''app2'')
               else if sid = ''3'' then Inr (auth ProviderTypeGCP ''app3'')
               else if sid = ''4'' then Inr (auth ProviderTypeNoop ''app4'')
               else if sid = ''5'' then Inr (auth ProviderTypeUnknown ''app5'')
               else if sid = ''404'' then Inl ''not found''
               else Inl ''timeout''),
      IsNotFoundErr = (\<lambda>e. e = ''not found''),
      IdentityOf = (\<lambda>m. ''org1''),
      GetEC2Client = (\<lambda>a. None),
      GetGCPClient = (\<lambda>a. (Some 0, None)),
      ListAllRegions = (\<lambda>c. None),
      ToGenericMessage = (\<lambda>r. if ResourceID r = ''bad'' then Inl ''encode'' else Inr (ResourceID r)),
      KafkaSend = (\<lambda>ms. None)\<rparr>"

text \<open>The same with a sources client that cannot be obtained.\<close>

definition envNoClient :: env where
  "envNoClient = env0\<lparr>GetSourcesClient := (\<lambda>sid. Some ''no sources client'')\<rparr>"

text \<open>The same with an AWS client that cannot be assumed.\<close>

definition envAwsDown :: env where
  "envAwsDown = env0\<lparr>GetEC2Client := (\<lambda>a. Some ''access denied'')\<rparr>"

text \<open>
  The same with a failing \<open>GetGCPClient\<close>: one that returns the nil client with its
  error, and one that returns a client together with its error.
\<close>

definition envGcpNil :: env where
  "envGcpNil = env0\<lparr>GetGCPClient := (\<lambda>a. (None, Some ''bad credentials''))\<rparr>"

definition envGcpErr :: env where
  "envGcpErr = env0\<lparr>GetGCPClient := (\<lambda>a. (Some 0, Some ''bad credentials''))\<rparr>"

definition source :: "ProviderType \<Rightarrow> string \<Rightarrow> SourceInfo" where
  "source p a = \<lparr>Authentication = auth p a, SourceApplicationID = a, Identity = ''org1''\<rparr>"

definition result :: "string \<Rightarrow> StatusType \<Rightarrow> err option \<Rightarrow> SourceResult" where
  "result a st e =
     \<lparr>ResourceID = a, SrIdentity = ''org1'', ResourceType = ''Application'', Status = st, Err = e\<rparr>"

text \<open>
  A schedule of the process on the single inbound message \<open>1\<close>: the AWS worker puts its
  result on \<open>chSend\<close>, the signal arrives, \<open>main\<close> cancels the context, the sender takes
  \<open>ctx.Done()\<close> and the shutdown sequence runs to its end.
\<close>

definition lossSchedule :: "action list" where
  "lossSchedule =
     [Fetch, ConsumerStep, ConsumerStep, Receive AWS, WorkerStep AWS, WorkerStep AWS,
      WorkerStep AWS, Signal, Main, Main, SenderDone, ConsumerReturn, Main, Main, Main, Main,
      Receive AWS, Receive Azure, Receive GCP, Main, Main, Main]"

section \<open>The router: processMessage\<close>

lemma dispatch_enqueues:
  "enqueuedOn w (dispatch p s) =
     (if (p = ProviderTypeAWS \<and> w = AWS) \<or> (p = ProviderTypeAzure \<and> w = Azure) \<or>
         (p = ProviderTypeGCP \<and> w = GCP) then [s] else [])"
  by (cases p; cases w; simp add: dispatch_def)

lemma processMessage_no_panic: "\<not> list_ex is_Panic (processMessage E m)"
  by (simp add: processMessage_def dispatch_def
      split: sum.splits option.splits ProviderType.splits)

text \<open>
  C4. The claim as stated fails for a decoded request whose sources client cannot be
  obtained (lines 83-87): no credentials are resolved, one warning is logged, and
  \<open>metrics.IncTotalInvalidAvailabilityCheckReqs\<close> is not called.
\<close>

theorem processMessage_no_client_no_metric:
  "NewAvailabilityStatusMessage envNoClient ''1'' = Inr ''1'' \<and>
   GetSourcesClient envNoClient ''1'' = Some ''no sources client'' \<and>
   processMessage envNoClient ''1'' =
     [Log Trace ''Received a message from sources to be processed with source id 1'',
      Log Warn ''Could not get sources client''] \<and>
   count_list (processMessage envNoClient ''1'') IncTotalInvalidAvailabilityCheckReqs = 0"
  by (simp add: processMessage_def envNoClient_def env0_def)

text \<open>
  C4, as amended. For every decoded request whose credentials are not resolved, because
  the sources client cannot be obtained or because \<open>GetAuthentication\<close> fails:
  nothing is put on any provider channel, nothing is sent to \<open>chSend\<close>, exactly one
  warning is logged, and every effect other than the metric is a log record. The
  invalid-request metric is incremented exactly once when \<open>GetAuthentication\<close> fails,
  for the not-found error and for every other error alike, and not at all when the
  sources client cannot be obtained.
\<close>

theorem processMessage_resolution_failure:
  assumes "NewAvailabilityStatusMessage E m = Inr sid"
    and "GetSourcesClient E sid \<noteq> None \<or> (\<exists>e. GetAuthentication E sid = Inl e)"
    and "receipt =
           Log Trace (''Received a message from sources to be processed with source id '' @ sid)"
  shows "filter is_Enqueue (processMessage E m) = [] \<and>
         enqueuedOn w (processMessage E m) = [] \<and>
         sentResults (processMessage E m) = [] \<and>
         length (filter is_Warn (processMessage E m)) = 1 \<and>
         filter (\<lambda>x. \<not> is_Log x \<and> x \<noteq> IncTotalInvalidAvailabilityCheckReqs)
           (processMessage E m) = [] \<and>
         count_list (processMessage E m) IncTotalInvalidAvailabilityCheckReqs =
           (if GetSourcesClient E sid = None then 1 else 0) \<and>
         (GetSourcesClient E sid \<noteq> None \<longrightarrow>
            processMessage E m = [receipt, Log Warn ''Could not get sources client'']) \<and>
         (\<forall>e. GetSourcesClient E sid = None \<longrightarrow> GetAuthentication E sid = Inl e \<longrightarrow>
            processMessage E m =
              [receipt, IncTotalInvalidAvailabilityCheckReqs,
               Log Warn (if IsNotFoundErr E e then ''Not found error from sources''
                         else ''Could not get authentication'')])"
proof (cases "GetSourcesClient E sid")
  case (Some e)
  with assms show ?thesis
    by (simp add: processMessage_def)
next
  case None
  with assms(2) obtain e where "GetAuthentication E sid = Inl e" by auto
  with assms None show ?thesis
    by (simp add: processMessage_def)
qed

theorem processMessage_resolution_failure_witness:
  "processMessage env0 ''404'' =
     [Log Trace ''Received a message from sources to be processed with source id 404'',
      IncTotalInvalidAvailabilityCheckReqs, Log Warn ''Not found error from sources''] \<and>
   processMessage env0 ''77'' =
     [Log Trace ''Received a message from sources to be processed with source id 77'',
      IncTotalInvalidAvailabilityCheckReqs, Log Warn ''Could not get authentication''] \<and>
   processMessage envNoClient ''1'' =
     [Log Trace ''Received a message from sources to be processed with source id 1'',
      Log Warn ''Could not get sources client''] \<and>
   count_list (processMessage env0 ''404'') IncTotalInvalidAvailabilityCheckReqs = 1 \<and>
   count_list (processMessage env0 ''77'') IncTotalInvalidAvailabilityCheckReqs = 1 \<and>
   count_list (processMessage envNoClient ''1'') IncTotalInvalidAvailabilityCheckReqs = 0 \<and>
   enqueuedOn AWS (processMessage envNoClient ''1'') = []"
proof -
  have d1: "NewAvailabilityStatusMessage env0 ''404'' = Inr ''404''"
    and d2: "NewAvailabilityStatusMessage env0 ''77'' = Inr ''77''"
    and d3: "NewAvailabilityStatusMessage envNoClient ''1'' = Inr ''1''"
    by (simp_all add: env0_def envNoClient_def)
  have c1: "GetSourcesClient env0 ''404'' = None" and c2: "GetSourcesClient env0 ''77'' = None"
    and c3: "GetSourcesClient envNoClient ''1'' = Some ''no sources client''"
    by (simp_all add: env0_def envNoClient_def)
  have a1: "GetAuthentication env0 ''404'' = Inl ''not found''"
    and a2: "GetAuthentication env0 ''77'' = Inl ''timeout''"
    by (simp_all add: env0_def)
  have f1: "GetSourcesClient env0 ''404'' \<noteq> None \<or> (\<exists>e. GetAuthentication env0 ''404'' = Inl e)"
    using a1 by simp
  have f2: "GetSourcesClient env0 ''77'' \<noteq> None \<or> (\<exists>e. GetAuthentication env0 ''77'' = Inl e)"
    using a2 by simp
  have f3: "GetSourcesClient envNoClient ''1'' \<noteq> None \<or>
      (\<exists>e. GetAuthentication envNoClient ''1'' = Inl e)"
    using c3 by simp
  have n: "IsNotFoundErr env0 ''not found''" "\<not> IsNotFoundErr env0 ''timeout''"
    by (simp_all add: env0_def)
  show ?thesis
    using processMessage_resolution_failure [OF d1 f1 refl, of AWS]
      processMessage_resolution_failure [OF d2 f2 refl, of AWS]
      processMessage_resolution_failure [OF d3 f3 refl, of AWS] c1 c2 c3 a1 a2 n
    by simp
qed

text \<open>
  C5. For a request whose authentication was fetched, \<open>processMessage\<close> is the trace
  record of the receipt (line 74, before the resolution and the same for every decoded
  message) followed by the switch of lines 107-117. The switch performs nothing for
  \<open>Noop\<close>, exactly one warning and no send for \<open>Unknown\<close>, and for AWS, Azure and GCP
  exactly one send, of the source built from the authentication, on the channel of that
  provider and on no other.
\<close>

theorem processMessage_dispatch:
  assumes "NewAvailabilityStatusMessage E m = Inr sid"
    and "GetSourcesClient E sid = None"
    and "GetAuthentication E sid = Inr a"
    and "s = \<lparr>Authentication = a, SourceApplicationID = SourceApplictionID a,
              Identity = IdentityOf E m\<rparr>"
    and "receipt =
           Log Trace (''Received a message from sources to be processed with source id '' @ sid)"
  shows "processMessage E m = receipt # dispatch (ProviderTypeOf a) s \<and>
         (if ProviderTypeOf a = ProviderTypeNoop then processMessage E m = [receipt]
          else if ProviderTypeOf a = ProviderTypeUnknown then
            processMessage E m =
              [receipt, Log Warn ''Authentication provider type is unknown'']
          else if ProviderTypeOf a = ProviderTypeAWS then
            processMessage E m = [receipt, Enqueue AWS s]
          else if ProviderTypeOf a = ProviderTypeAzure then
            processMessage E m = [receipt, Enqueue Azure s]
          else processMessage E m = [receipt, Enqueue GCP s])"
  using assms by (cases "ProviderTypeOf a") (simp_all add: processMessage_def dispatch_def)

theorem processMessage_dispatch_witness:
  "processMessage env0 ''4'' =
     [Log Trace ''Received a message from sources to be processed with source id 4''] \<and>
   processMessage env0 ''5'' =
     [Log Trace ''Received a message from sources to be processed with source id 5'',
      Log Warn ''Authentication provider type is unknown''] \<and>
   processMessage env0 ''2'' =
     [Log Trace ''Received a message from sources to be processed with source id 2'',
      Enqueue Azure (source ProviderTypeAzure ''app2'')]"
proof -
  have d: "NewAvailabilityStatusMessage env0 ''4'' = Inr ''4''"
    "NewAvailabilityStatusMessage env0 ''5'' = Inr ''5''"
    "NewAvailabilityStatusMessage env0 ''2'' = Inr ''2''"
    by (simp_all add: env0_def)
  have c: "GetSourcesClient env0 ''4'' = None" "GetSourcesClient env0 ''5'' = None"
    "GetSourcesClient env0 ''2'' = None"
    by (simp_all add: env0_def)
  have a: "GetAuthentication env0 ''4'' = Inr (auth ProviderTypeNoop ''app4'')"
    "GetAuthentication env0 ''5'' = Inr (auth ProviderTypeUnknown ''app5'')"
    "GetAuthentication env0 ''2'' = Inr (auth ProviderTypeAzure ''app2'')"
    by (simp_all add: env0_def)
  have i: "IdentityOf env0 ''2'' = ''org1''"
    by (simp add: env0_def)
  show ?thesis
    using processMessage_dispatch [OF d(1) c(1) a(1) refl refl, THEN conjunct2]
      processMessage_dispatch [OF d(2) c(2) a(2) refl refl, THEN conjunct2]
      processMessage_dispatch [OF d(3) c(3) a(3) refl refl, THEN conjunct2] i
    by (simp add: auth_def source_def)
qed

section \<open>The provider workers\<close>

lemma sentResults_append: "sentResults (xs @ ys) = sentResults xs @ sentResults ys"
  by (induction xs rule: sentResults.induct) simp_all

lemma checkAWS_results:
  "sentResults (checkAWS E s) =
     [(newSourceResult s)
        \<lparr>Status := (if GetEC2Client E (Authentication s) = None then StatusAvaliable
                    else StatusUnavailable),
         Err := GetEC2Client E (Authentication s)\<rparr>]"
  by (simp add: checkAWS_def Let_def newSourceResult_def)

lemma checkAzure_results:
  "sentResults (checkAzure E s) = [(newSourceResult s)\<lparr>Status := StatusAvaliable\<rparr>]"
  by (simp add: checkAzure_def Let_def)

lemma checkGCP_results_client_ok:
  assumes "GetGCPClient E (Authentication s) = (Some c, None)"
  shows "sentResults (checkGCP E s) =
           [(newSourceResult s)
              \<lparr>Status := (if ListAllRegions E c = None then StatusAvaliable
                          else StatusUnavailable),
               Err := ListAllRegions E c\<rparr>]"
  using assms by (simp add: checkGCP_def Let_def newSourceResult_def)

lemma checkAWS_no_panic: "\<not> list_ex is_Panic (checkAWS E s)"
  by (simp add: checkAWS_def Let_def)

lemma checkAzure_no_panic: "\<not> list_ex is_Panic (checkAzure E s)"
  by (simp add: checkAzure_def Let_def)

text \<open>
  Over any sequence of sources, the AWS and the Azure worker put exactly one result per
  source on \<open>chSend\<close>.
\<close>

lemma rangeLoop_checkAWS_count:
  "length (sentResults (rangeLoop (checkAWS E) ss)) = length ss"
  by (induction ss) (simp_all add: Let_def checkAWS_no_panic sentResults_append checkAWS_results)

lemma rangeLoop_checkAzure_count:
  "length (sentResults (rangeLoop (checkAzure E) ss)) = length ss"
  by (induction ss)
    (simp_all add: Let_def checkAzure_no_panic sentResults_append checkAzure_results)

text \<open>
  C2. The claim holds for the AWS and the Azure closure and for the GCP closure when
  \<open>GetGCPClient\<close> succeeds (the lemmas above); it fails in the GCP closure when
  \<open>GetGCPClient\<close> fails. The branch of lines 186-191 sends the result and falls through
  to line 192: with a client returned beside the error a second result is sent for the
  same source; with the nil client the call panics after the first send, and the worker
  and the process end there.
\<close>

theorem checkGCP_failed_client_two_results:
  "length (sentResults (checkGCP envGcpErr (source ProviderTypeGCP ''app3''))) = 2 \<and>
   sentResults (checkGCP envGcpNil (source ProviderTypeGCP ''app3'')) =
     [result ''app3'' StatusUnavailable (Some ''bad credentials'')] \<and>
   last (checkGCP envGcpNil (source ProviderTypeGCP ''app3'')) = Panic NilDereference \<and>
   sentResults (rangeLoop (checkGCP envGcpNil)
     [source ProviderTypeGCP ''app3'', source ProviderTypeGCP ''app6'']) =
     [result ''app3'' StatusUnavailable (Some ''bad credentials'')]"
  by (simp add: checkGCP_def envGcpErr_def envGcpNil_def env0_def source_def result_def
      newSourceResult_def Let_def)

text \<open>
  C3. The claim holds for the AWS closure, for the Azure closure (which makes no probe
  call and always reports \<open>StatusAvaliable\<close> with no error) and for the GCP closure when
  \<open>GetGCPClient\<close> succeeds (the lemmas above). In the GCP closure after a failed
  \<open>GetGCPClient\<close> that returned a client, the probe \<open>ListAllRegions\<close> succeeds and the
  result sent for it has \<open>StatusAvaliable\<close> and still carries the error of line 188.
\<close>

theorem checkGCP_available_with_error:
  "ListAllRegions envGcpErr 0 = None \<and>
   sentResults (checkGCP envGcpErr (source ProviderTypeGCP ''app3'')) =
     [result ''app3'' StatusUnavailable (Some ''bad credentials''),
      result ''app3'' StatusAvaliable (Some ''bad credentials'')]"
  by (simp add: checkGCP_def envGcpErr_def env0_def source_def result_def
      newSourceResult_def Let_def)

text \<open>
  C9. Whenever \<open>GetGCPClient\<close> returns an error, the GCP closure goes on to call
  \<open>ListAllRegions\<close> on the client that came with the error, and when that client is nil
  the closure ends in the panic of the nil dereference.
\<close>

theorem checkGCP_probes_failed_client:
  assumes "GetGCPClient E (Authentication s) = (cl, Some e)"
  shows "CallListAllRegions cl \<in> set (checkGCP E s) \<and>
         (if cl = None then last (checkGCP E s) = Panic NilDereference
          else length (sentResults (checkGCP E s)) = 2)"
  using assms by (cases cl) (simp_all add: checkGCP_def Let_def)

theorem checkGCP_probes_failed_client_witness:
  "CallListAllRegions None \<in> set (checkGCP envGcpNil (source ProviderTypeGCP ''app3'')) \<and>
   last (checkGCP envGcpNil (source ProviderTypeGCP ''app3'')) = Panic NilDereference"
proof -
  have h: "GetGCPClient envGcpNil (Authentication (source ProviderTypeGCP ''app3'')) =
             (None, Some ''bad credentials'')"
    by (simp add: envGcpNil_def)
  show ?thesis
    using checkGCP_probes_failed_client [OF h] by simp
qed

section \<open>The batcher: sendResults\<close>

lemma transmitted_append: "transmitted (xs @ ys) = transmitted xs @ transmitted ys"
  by (induction xs rule: transmitted.induct) simp_all

lemma transmitted_send: "transmitted (send E reason ms) = [ms]"
  by (simp add: send_def split: option.splits)

text \<open>
  One case of the select, from a buffer below the bound: what it transmits is at most one
  batch, the buffer it had (with the new message), non-empty and within the bound; the
  buffer it leaves is again below the bound, and empty when it transmitted.
\<close>

lemma sendResultsStep_bound:
  assumes "0 < b" and "int (length ms) < b" and "sendResultsStep E b ms ev = (st, out)"
  shows "(transmitted out = [] \<or>
          (\<exists>batch. transmitted out = [batch] \<and> batch \<noteq> [] \<and> int (length batch) \<le> b \<and>
             (st = SRunning [] \<or> st = SExited))) \<and>
         (st = SExited \<or> (\<exists>ms1. st = SRunning ms1 \<and> int (length ms1) < b))"
proof (cases ev)
  case (FromChSend sr)
  then show ?thesis
    using assms by (auto simp: Let_def transmitted_send split: sum.splits if_splits)
next
  case FromTicker
  then show ?thesis
    using assms by (auto simp: transmitted_send split: if_splits)
next
  case FromCtxDone
  then show ?thesis
    using assms by (auto simp: transmitted_send split: if_splits)
qed

lemma sendResultsLoop_bound:
  assumes "0 < b"
  shows "st = SExited \<or> (\<exists>ms. st = SRunning ms \<and> int (length ms) < b) \<Longrightarrow>
         sendResultsLoop E b st evs = (st2, out) \<Longrightarrow>
         (\<forall>batch \<in> set (transmitted out). batch \<noteq> [] \<and> int (length batch) \<le> b) \<and>
         (st2 = SExited \<or> (\<exists>ms2. st2 = SRunning ms2 \<and> int (length ms2) < b))"
proof (induction evs arbitrary: st st2 out)
  case Nil
  then show ?case by auto
next
  case (Cons ev evs)
  show ?case
  proof (cases st)
    case SExited
    with Cons.prems show ?thesis by auto
  next
    case (SRunning ms)
    obtain st1 out1 where step: "sendResultsStep E b ms ev = (st1, out1)"
      by (cases "sendResultsStep E b ms ev") auto
    obtain st3 out3 where rest: "sendResultsLoop E b st1 evs = (st3, out3)"
      by (cases "sendResultsLoop E b st1 evs") auto
    from Cons.prems(1) SRunning have small: "int (length ms) < b" by simp
    note sb = sendResultsStep_bound [OF assms small step]
    from sb have st1: "st1 = SExited \<or> (\<exists>ms1. st1 = SRunning ms1 \<and> int (length ms1) < b)"
      by blast
    note ih = Cons.IH [OF st1 rest]
    from Cons.prems(2) SRunning step rest have eq: "st2 = st3" "out = out1 @ out3"
      by simp_all
    from sb have "\<forall>batch \<in> set (transmitted out1). batch \<noteq> [] \<and> int (length batch) \<le> b"
      by auto
    with ih eq show ?thesis
      by (auto simp: transmitted_append)
  qed
qed

text \<open>
  C6. With a positive \<open>batchSize\<close> (the only call, line 347, passes 1024), after any
  sequence of cases taken by the select of \<open>sendResults\<close>: every batch handed to
  \<open>kafka.Send\<close> is non-empty and has at most \<open>batchSize\<close> messages; the buffer the loop holds
  is shorter than \<open>batchSize\<close>; from there, a case that transmits hands over exactly one
  batch and leaves the empty buffer (or is the final flush, after which the loop has
  returned), whatever \<open>kafka.Send\<close> answers; and a received result that encodes is
  appended, with the flush taken in that same case exactly when the append brings the
  length to \<open>batchSize\<close>.
\<close>

theorem sendResults_batch_bound:
  assumes "0 < batchSize"
  shows "(\<forall>batch \<in> set (transmitted (snd (sendResults E batchSize evs))).
            batch \<noteq> [] \<and> int (length batch) \<le> batchSize) \<and>
         (\<forall>ms. fst (sendResults E batchSize evs) = SRunning ms \<longrightarrow>
            int (length ms) < batchSize \<and>
            (\<forall>ev st out. sendResultsStep E batchSize ms ev = (st, out) \<longrightarrow>
               transmitted out \<noteq> [] \<longrightarrow>
               (st = SRunning [] \<or> st = SExited) \<and> length (transmitted out) = 1) \<and>
            (\<forall>sr msg. ToGenericMessage E sr = Inr msg \<longrightarrow>
               sendResultsStep E batchSize ms (FromChSend sr) =
                 (if int (length ms) + 1 = batchSize
                  then (SRunning [], send E ''full buffer'' (ms @ [msg]))
                  else (SRunning (ms @ [msg]), []))))"
proof -
  obtain st2 out where run: "sendResultsLoop E batchSize (SRunning []) evs = (st2, out)"
    by (cases "sendResultsLoop E batchSize (SRunning []) evs") auto
  have start: "SRunning [] = SExited \<or>
      (\<exists>ms. SRunning [] = SRunning ms \<and> int (length ms) < batchSize)"
    using assms by simp
  note lb = sendResultsLoop_bound [OF assms start run]
  have sr: "sendResults E batchSize evs = (st2, out)"
    using assms run by (simp add: sendResults_def)
  have batches: "\<forall>batch \<in> set (transmitted (snd (sendResults E batchSize evs))).
      batch \<noteq> [] \<and> int (length batch) \<le> batchSize"
    using lb sr by simp
  have buffer: "\<forall>ms. fst (sendResults E batchSize evs) = SRunning ms \<longrightarrow>
      int (length ms) < batchSize"
    using lb sr by auto
  show ?thesis
  proof (intro conjI allI impI)
    show "\<forall>batch \<in> set (transmitted (snd (sendResults E batchSize evs))).
        batch \<noteq> [] \<and> int (length batch) \<le> batchSize"
      by (rule batches)
  next
    fix ms
    assume "fst (sendResults E batchSize evs) = SRunning ms"
    with buffer show "int (length ms) < batchSize" by simp
  next
    fix ms ev st out
    assume r: "fst (sendResults E batchSize evs) = SRunning ms"
      and s: "sendResultsStep E batchSize ms ev = (st, out)"
      and t: "transmitted out \<noteq> []"
    from buffer r have small: "int (length ms) < batchSize" by simp
    from sendResultsStep_bound [OF assms small s] t
    show "st = SRunning [] \<or> st = SExited" by auto
  next
    fix ms ev st out
    assume r: "fst (sendResults E batchSize evs) = SRunning ms"
      and s: "sendResultsStep E batchSize ms ev = (st, out)"
      and t: "transmitted out \<noteq> []"
    from buffer r have small: "int (length ms) < batchSize" by simp
    from sendResultsStep_bound [OF assms small s] t
    show "length (transmitted out) = 1" by auto
  next
    fix ms sr msg
    assume r: "fst (sendResults E batchSize evs) = SRunning ms"
      and e: "ToGenericMessage E sr = Inr msg"
    from buffer r have small: "int (length ms) < batchSize" by simp
    from small e
    show "sendResultsStep E batchSize ms (FromChSend sr) =
        (if int (length ms) + 1 = batchSize
         then (SRunning [], send E ''full buffer'' (ms @ [msg]))
         else (SRunning (ms @ [msg]), []))"
      by (simp add: Let_def)
  qed
qed

theorem sendResults_batch_bound_witness:
  "transmitted (snd (sendResults env0 3
     [FromChSend (result ''a'' StatusAvaliable None), FromChSend (result ''b'' StatusAvaliable None),
      FromChSend (result ''c'' StatusAvaliable None), FromChSend (result ''d'' StatusAvaliable None),
      FromChSend (result ''e'' StatusAvaliable None), FromTicker])) =
     [[''a'', ''b'', ''c''], [''d'', ''e'']] \<and>
   list_all (\<lambda>batch. batch \<noteq> [] \<and> int (length batch) \<le> 3)
     (transmitted (snd (sendResults env0 3
       [FromChSend (result ''a'' StatusAvaliable None), FromChSend (result ''b'' StatusAvaliable None),
        FromChSend (result ''c'' StatusAvaliable None), FromChSend (result ''d'' StatusAvaliable None),
        FromChSend (result ''e'' StatusAvaliable None), FromTicker])))"
proof -
  have pos: "(0::int) < 3" by simp
  have ex: "transmitted (snd (sendResults env0 3
     [FromChSend (result ''a'' StatusAvaliable None), FromChSend (result ''b'' StatusAvaliable None),
      FromChSend (result ''c'' StatusAvaliable None), FromChSend (result ''d'' StatusAvaliable None),
      FromChSend (result ''e'' StatusAvaliable None), FromTicker])) =
     [[''a'', ''b'', ''c''], [''d'', ''e'']]"
    by (simp add: sendResults_def env0_def result_def send_def Let_def)
  show ?thesis
    using sendResults_batch_bound [OF pos, of env0
        "[FromChSend (result ''a'' StatusAvaliable None), FromChSend (result ''b'' StatusAvaliable None),
          FromChSend (result ''c'' StatusAvaliable None), FromChSend (result ''d'' StatusAvaliable None),
          FromChSend (result ''e'' StatusAvaliable None), FromTicker]"] ex
    by (simp add: list_all_iff)
qed

lemma sendResultsLoop_append:
  "sendResultsLoop E b st (xs @ ys) =
     (let (st1, out1) = sendResultsLoop E b st xs; (st2, out2) = sendResultsLoop E b st1 ys
      in (st2, out1 @ out2))"
proof (induction xs arbitrary: st)
  case Nil
  then show ?case by (simp split: prod.splits)
next
  case (Cons x xs)
  show ?case
  proof (cases st)
    case SExited
    then show ?thesis by (cases ys) simp_all
  next
    case (SRunning ms)
    then show ?thesis
      using Cons.IH by (simp split: prod.splits)
  qed
qed

lemma sendResultsLoop_skip:
  assumes "ToGenericMessage E sr = Inl e"
  shows "fst (sendResultsLoop E b st (FromChSend sr # evs)) = fst (sendResultsLoop E b st evs) \<and>
         transmitted (snd (sendResultsLoop E b st (FromChSend sr # evs))) =
           transmitted (snd (sendResultsLoop E b st evs))"
proof (cases st)
  case SExited
  then show ?thesis by (cases evs) simp_all
next
  case (SRunning ms)
  then show ?thesis
    using assms by (simp split: prod.splits)
qed

text \<open>
  C10. When the encoding of a received result fails, the case of the select leaves the
  buffer as it was, transmits nothing, logs one warning and stays in the loop; and the
  result is in no batch afterwards: whatever the select takes before and after, the
  batches transmitted and the final state of the sender are those of the run in which
  that result was never received.
\<close>

theorem sendResults_encoding_failure:
  assumes "ToGenericMessage E sr = Inl e"
  shows "sendResultsStep E batchSize messages (FromChSend sr) =
           (SRunning messages, [Log Warn ''Could not generate generic message'']) \<and>
         transmitted (snd (sendResultsStep E batchSize messages (FromChSend sr))) = [] \<and>
         fst (sendResults E batchSize (before @ FromChSend sr # after)) =
           fst (sendResults E batchSize (before @ after)) \<and>
         transmitted (snd (sendResults E batchSize (before @ FromChSend sr # after))) =
           transmitted (snd (sendResults E batchSize (before @ after)))"
proof -
  have step: "sendResultsStep E batchSize messages (FromChSend sr) =
      (SRunning messages, [Log Warn ''Could not generate generic message''])"
    using assms by simp
  obtain st1 out1 where pre: "sendResultsLoop E batchSize (SRunning []) before = (st1, out1)"
    by (cases "sendResultsLoop E batchSize (SRunning []) before") auto
  note skip = sendResultsLoop_skip [OF assms, of batchSize st1 after]
  have "fst (sendResultsLoop E batchSize (SRunning []) (before @ FromChSend sr # after)) =
        fst (sendResultsLoop E batchSize (SRunning []) (before @ after)) \<and>
        transmitted (snd (sendResultsLoop E batchSize (SRunning []) (before @ FromChSend sr # after))) =
        transmitted (snd (sendResultsLoop E batchSize (SRunning []) (before @ after)))"
    using skip pre
    by (cases "sendResultsLoop E batchSize st1 (FromChSend sr # after)";
        cases "sendResultsLoop E batchSize st1 after")
      (simp add: sendResultsLoop_append transmitted_append)
  then show ?thesis
    using step by (simp add: sendResults_def)
qed

theorem sendResults_encoding_failure_witness:
  "sendResultsStep env0 3 [''a''] (FromChSend (result ''bad'' StatusAvaliable None)) =
     (SRunning [''a''], [Log Warn ''Could not generate generic message'']) \<and>
   transmitted (snd (sendResults env0 3
     [FromChSend (result ''a'' StatusAvaliable None), FromChSend (result ''bad'' StatusAvaliable None),
      FromChSend (result ''b'' StatusAvaliable None), FromTicker])) = [[''a'', ''b'']]"
proof -
  have bad: "ToGenericMessage env0 (result ''bad'' StatusAvaliable None) = Inl ''encode''"
    by (simp add: env0_def result_def)
  have without: "transmitted (snd (sendResults env0 3
     ([FromChSend (result ''a'' StatusAvaliable None)] @
      [FromChSend (result ''b'' StatusAvaliable None), FromTicker]))) = [[''a'', ''b'']]"
    by (simp add: sendResults_def env0_def result_def send_def Let_def)
  show ?thesis
    using sendResults_encoding_failure [OF bad, of 3 "[''a'']"
        "[FromChSend (result ''a'' StatusAvaliable None)]"
        "[FromChSend (result ''b'' StatusAvaliable None), FromTicker]"] without
    by simp
qed

section \<open>The shutdown sequence\<close>

lemma checkAWS_panics: "Panic p \<notin> set (checkAWS E s)"
  by (simp add: checkAWS_def Let_def)

lemma checkAzure_panics: "Panic p \<notin> set (checkAzure E s)"
  by (simp add: checkAzure_def Let_def)

lemma checkGCP_panics: "Panic SendOnClosedChannel \<notin> set (checkGCP E s)"
  by (simp add: checkGCP_def Let_def split: prod.splits option.splits)

lemma check_panics: "Panic SendOnClosedChannel \<notin> set (check w E s)"
  by (cases w) (simp_all add: checkAWS_panics checkAzure_panics checkGCP_panics)

lemma pending_continue: "pending (continue es) = es"
  by (simp add: continue_def)

lemma continue_not_TExited: "continue es \<noteq> TExited"
  by (simp add: continue_def)

lemma senderTake_fields:
  "pc (senderTake E ev s) = pc s"
  "consumer (senderTake E ev s) = consumer s"
  "queue (senderTake E ev s) = queue s"
  "chSend (senderTake E ev s) = chSend s"
  "workers (senderTake E ev s) = workers s"
  "crashed (senderTake E ev s) = crashed s"
  "cancelled (senderTake E ev s) = cancelled s"
  by (simp_all add: senderTake_def split: sender.splits prod.splits)

lemma shutdownInv_initial: "shutdownInv (initial ms)"
  by (simp add: shutdownInv_def workerInv_def initial_def emptyChan_def)

lemma shutdownInv_mainStep:
  assumes "shutdownInv s" and "mainStep s = Some s1"
  shows "shutdownInv s1"
  using assms
  by (cases "pc s") (auto simp: shutdownInv_def workerInv_def mainStep_def split: if_splits)

lemma shutdownInv_consumerStep:
  assumes "shutdownInv s" and "consumerStep s = Some s1"
  shows "shutdownInv s1"
proof -
  from assms(2) obtain e es where busy: "consumer s = TBusy (e # es)"
    by (auto simp: consumerStep_def split: task.splits list.splits)
  from assms(1) busy have early: "rank (pc s) < 3"
    by (auto simp: shutdownInv_def)
  from assms(1) busy have nopanic: "\<not> is_Panic e" "\<not> list_ex is_Panic es"
    by (auto simp: shutdownInv_def)
  show ?thesis
  proof (cases e)
    case (Enqueue w si)
    from assms(1) early have op: "\<not> closed (queue s w)"
      by (cases w) (auto simp: shutdownInv_def workerInv_def)
    from assms(2) busy Enqueue op
    have s1: "s1 = s\<lparr>queue := (queue s)(w := (queue s w)\<lparr>buf := buf (queue s w) @ [si]\<rparr>),
                     consumer := continue es\<rparr>"
      by (simp add: consumerStep_def split: if_splits)
    from assms(1) early nopanic op show ?thesis
      unfolding s1
      by (cases w) (auto simp: shutdownInv_def workerInv_def pending_continue)
  next
    case (Panic p)
    with nopanic show ?thesis by simp
  next
    case (Log l m)
    with assms busy early nopanic show ?thesis
      by (auto simp: shutdownInv_def workerInv_def consumerStep_def pending_continue)
  next
    case IncTotalInvalidAvailabilityCheckReqs
    with assms busy early nopanic show ?thesis
      by (auto simp: shutdownInv_def workerInv_def consumerStep_def pending_continue)
  next
    case (IncTotalSentAvailabilityCheckReqs p st er)
    with assms busy early nopanic show ?thesis
      by (auto simp: shutdownInv_def workerInv_def consumerStep_def pending_continue)
  next
    case (SendResult r)
    with assms busy early nopanic show ?thesis
      by (auto simp: shutdownInv_def workerInv_def consumerStep_def pending_continue)
  next
    case (CallListAllRegions c)
    with assms busy early nopanic show ?thesis
      by (auto simp: shutdownInv_def workerInv_def consumerStep_def pending_continue)
  next
    case (Transmit ms)
    with assms busy early nopanic show ?thesis
      by (auto simp: shutdownInv_def workerInv_def consumerStep_def pending_continue)
  qed
qed

lemma shutdownInv_running_worker:
  assumes "shutdownInv s" and "workers s w \<noteq> TExited"
  shows "rank (pc s) < 7 \<and> \<not> closed (chSend s)"
  using assms by (cases w) (auto simp: shutdownInv_def workerInv_def)

lemma shutdownInv_worker_continue:
  assumes "shutdownInv s" and "workers s w \<noteq> TExited"
    and "Panic SendOnClosedChannel \<notin> set es"
  shows "shutdownInv (s\<lparr>workers := (workers s)(w := continue es)\<rparr>)"
  using assms shutdownInv_running_worker [OF assms(1,2)]
  by (cases w)
    (auto simp: shutdownInv_def workerInv_def pending_continue continue_not_TExited)

lemma shutdownInv_observed:
  "shutdownInv (s\<lparr>observed := obs\<rparr>) = shutdownInv s"
  by (simp add: shutdownInv_def workerInv_def)

lemma shutdownInv_chSend_buf:
  "shutdownInv (s\<lparr>chSend := (chSend s)\<lparr>buf := b\<rparr>\<rparr>) = shutdownInv s"
  by (simp add: shutdownInv_def workerInv_def)

lemma shutdownInv_crashed:
  "shutdownInv s \<Longrightarrow> p \<noteq> SendOnClosedChannel \<Longrightarrow> shutdownInv (s\<lparr>crashed := Some p\<rparr>)"
  by (simp add: shutdownInv_def workerInv_def)

lemma shutdownInv_workerStep:
  assumes "shutdownInv s" and "workerStep w s = Some s1"
  shows "shutdownInv s1"
proof -
  from assms(2) obtain e es where busy: "workers s w = TBusy (e # es)"
    by (auto simp: workerStep_def split: task.splits list.splits)
  then have running: "workers s w \<noteq> TExited" by simp
  note early = shutdownInv_running_worker [OF assms(1) running]
  from assms(1) have "Panic SendOnClosedChannel \<notin> set (pending (workers s w))"
    by (cases w) (simp_all add: shutdownInv_def workerInv_def)
  with busy have nopanic: "e \<noteq> Panic SendOnClosedChannel"
    "Panic SendOnClosedChannel \<notin> set es"
    by auto
  have cont: "shutdownInv (s\<lparr>workers := (workers s)(w := continue es)\<rparr>)"
    by (rule shutdownInv_worker_continue [OF assms(1) running nopanic(2)])
  show ?thesis
  proof (cases e)
    case (SendResult r)
    with assms(2) busy early
    have "s1 = (s\<lparr>workers := (workers s)(w := continue es)\<rparr>)
                 \<lparr>chSend := (chSend (s\<lparr>workers := (workers s)(w := continue es)\<rparr>))
                    \<lparr>buf := buf (chSend s) @ [r]\<rparr>\<rparr>"
      by (auto simp: workerStep_def split: if_splits)
    with cont show ?thesis
      by (simp only: shutdownInv_chSend_buf)
  next
    case (Panic p)
    with assms(2) busy have "s1 = s\<lparr>crashed := Some p\<rparr>"
      by (simp add: workerStep_def)
    moreover from nopanic(1) Panic have "p \<noteq> SendOnClosedChannel"
      by simp
    ultimately show ?thesis
      using assms(1) by (simp add: shutdownInv_crashed)
  next
    case (Log l m)
    with assms(2) busy
    have "s1 = (s\<lparr>workers := (workers s)(w := continue es)\<rparr>)\<lparr>observed := observed s @ [e]\<rparr>"
      by (auto simp: workerStep_def)
    with cont show ?thesis by (simp only: shutdownInv_observed)
  next
    case IncTotalInvalidAvailabilityCheckReqs
    with assms(2) busy
    have "s1 = (s\<lparr>workers := (workers s)(w := continue es)\<rparr>)\<lparr>observed := observed s @ [e]\<rparr>"
      by (auto simp: workerStep_def)
    with cont show ?thesis by (simp only: shutdownInv_observed)
  next
    case (IncTotalSentAvailabilityCheckReqs p st er)
    with assms(2) busy
    have "s1 = (s\<lparr>workers := (workers s)(w := continue es)\<rparr>)\<lparr>observed := observed s @ [e]\<rparr>"
      by (auto simp: workerStep_def)
    with cont show ?thesis by (simp only: shutdownInv_observed)
  next
    case (Enqueue w2 si)
    with assms(2) busy
    have "s1 = (s\<lparr>workers := (workers s)(w := continue es)\<rparr>)\<lparr>observed := observed s @ [e]\<rparr>"
      by (auto simp: workerStep_def)
    with cont show ?thesis by (simp only: shutdownInv_observed)
  next
    case (CallListAllRegions c)
    with assms(2) busy
    have "s1 = (s\<lparr>workers := (workers s)(w := continue es)\<rparr>)\<lparr>observed := observed s @ [e]\<rparr>"
      by (auto simp: workerStep_def)
    with cont show ?thesis by (simp only: shutdownInv_observed)
  next
    case (Transmit ms)
    with assms(2) busy
    have "s1 = (s\<lparr>workers := (workers s)(w := continue es)\<rparr>)\<lparr>observed := observed s @ [e]\<rparr>"
      by (auto simp: workerStep_def)
    with cont show ?thesis by (simp only: shutdownInv_observed)
  qed
qed

lemma shutdownInv_workerReceive:
  assumes "shutdownInv s" and "workerReceive E w s = Some s1"
  shows "shutdownInv s1"
proof -
  from assms(2) have idle: "workers s w = TIdle"
    by (auto simp: workerReceive_def split: task.splits)
  then have running: "workers s w \<noteq> TExited" by simp
  note early = shutdownInv_running_worker [OF assms(1) running]
  show ?thesis
  proof (cases "buf (queue s w)")
    case Nil
    with assms(2) idle have cl: "closed (queue s w)"
      and s1: "s1 = s\<lparr>workers := (workers s)(w := TExited)\<rparr>"
      by (auto simp: workerReceive_def split: if_splits)
    from assms(1) early cl Nil show ?thesis
      unfolding s1
      by (cases w) (auto simp: shutdownInv_def workerInv_def)
  next
    case (Cons si rest)
    with assms(2) idle
    have s1: "s1 = (s\<lparr>workers := (workers s)(w := continue (check w E si))\<rparr>)
                     \<lparr>queue := (queue s)(w := (queue s w)\<lparr>buf := rest\<rparr>)\<rparr>"
      by (auto simp: workerReceive_def)
    have cont: "shutdownInv (s\<lparr>workers := (workers s)(w := continue (check w E si))\<rparr>)"
      by (rule shutdownInv_worker_continue [OF assms(1) running check_panics])
    then show ?thesis
      unfolding s1
      by (cases w)
        (auto simp: shutdownInv_def workerInv_def continue_not_TExited)
  qed
qed

lemma shutdownInv_senderTake:
  assumes "shutdownInv s"
  shows "shutdownInv (senderTake E ev s)"
  using assms by (simp add: shutdownInv_def workerInv_def senderTake_fields)

lemma shutdownInv_fire:
  assumes "shutdownInv s" and "fire E a s = Some s1"
  shows "shutdownInv s1"
proof -
  from assms(2) have alive: "crashed s = None"
    by (simp add: fire_def split: if_splits)
  show ?thesis
  proof (cases a)
    case Signal
    with assms(2) alive have "s1 = s\<lparr>signalled := True\<rparr>"
      by (simp add: fire_def)
    with assms(1) show ?thesis
      by (simp add: shutdownInv_def workerInv_def)
  next
    case Main
    with assms(2) alive have "mainStep s = Some s1"
      by (simp add: fire_def)
    then show ?thesis
      by (rule shutdownInv_mainStep [OF assms(1)])
  next
    case Fetch
    with assms(2) alive obtain m ms where idle: "consumer s = TIdle"
      and s1: "s1 = s\<lparr>inbound := ms, consumer := continue (processMessage E m)\<rparr>"
      by (auto simp: fire_def split: task.splits list.splits)
    from assms(1) idle processMessage_no_panic [of E m] show ?thesis
      unfolding s1 by (simp add: shutdownInv_def workerInv_def pending_continue)
  next
    case ConsumerStep
    with assms(2) alive have "consumerStep s = Some s1"
      by (simp add: fire_def)
    then show ?thesis
      by (rule shutdownInv_consumerStep [OF assms(1)])
  next
    case ConsumerReturn
    with assms(2) alive have "s1 = s\<lparr>consumer := TExited\<rparr>"
      by (simp add: fire_def split: if_splits)
    with assms(1) show ?thesis
      by (simp add: shutdownInv_def workerInv_def)
  next
    case (Receive w)
    with assms(2) alive have "workerReceive E w s = Some s1"
      by (simp add: fire_def)
    then show ?thesis
      by (rule shutdownInv_workerReceive [OF assms(1)])
  next
    case (WorkerStep w)
    with assms(2) alive have "workerStep w s = Some s1"
      by (simp add: fire_def)
    then show ?thesis
      by (rule shutdownInv_workerStep [OF assms(1)])
  next
    case SenderReceive
    with assms(2) alive have sr: "senderReceive E s = Some s1"
      by (simp add: fire_def)
    show ?thesis
    proof (cases "buf (chSend s)")
      case Nil
      with sr have "s1 = senderTake E (FromChSend zeroSourceResult) s"
        by (simp add: senderReceive_def split: if_splits)
      with assms(1) show ?thesis
        by (simp add: shutdownInv_senderTake)
    next
      case (Cons r rest)
      with sr have "s1 = senderTake E (FromChSend r) (s\<lparr>chSend := (chSend s)\<lparr>buf := rest\<rparr>\<rparr>)"
        by (simp add: senderReceive_def split: if_splits)
      with assms(1) show ?thesis
        by (simp add: shutdownInv_senderTake shutdownInv_chSend_buf)
    qed
  next
    case SenderTick
    with assms(2) alive have "s1 = senderTake E FromTicker s"
      by (simp add: fire_def split: if_splits)
    with assms(1) show ?thesis
      by (simp add: shutdownInv_senderTake)
  next
    case SenderDone
    with assms(2) alive have "s1 = senderTake E FromCtxDone s"
      by (simp add: fire_def split: if_splits)
    with assms(1) show ?thesis
      by (simp add: shutdownInv_senderTake)
  qed
qed

lemma shutdownInv_run:
  "shutdownInv s \<Longrightarrow> run E as s = Some s1 \<Longrightarrow> shutdownInv s1"
proof (induction as arbitrary: s)
  case Nil
  then show ?case by simp
next
  case (Cons a as)
  from Cons.prems(2) obtain s2 where f: "fire E a s = Some s2" and r: "run E as s2 = Some s1"
    by (auto split: option.splits)
  from Cons.IH [OF shutdownInv_fire [OF Cons.prems(1) f] r] show ?case .
qed

lemma shutdownInv_reachable:
  "run E as (initial ms) = Some s \<Longrightarrow> shutdownInv s"
  by (rule shutdownInv_run [OF shutdownInv_initial])

lemma mainStep_workers: "mainStep s = Some s1 \<Longrightarrow> workers s1 = workers s \<and> consumer s1 = consumer s"
  by (cases "pc s") (auto simp: mainStep_def split: if_splits)

lemma consumerStep_workers: "consumerStep s = Some s1 \<Longrightarrow> workers s1 = workers s"
  by (auto simp: consumerStep_def split: task.splits list.splits effect.splits if_splits)

lemma consumerStep_consumer: "consumerStep s = Some s1 \<Longrightarrow> consumer s \<noteq> TExited"
  by (auto simp: consumerStep_def split: task.splits)

lemma workerStep_exited:
  "workerStep w2 s = Some s1 \<Longrightarrow>
     consumer s1 = consumer s \<and> (workers s1 w = TExited \<longrightarrow> workers s w = TExited) \<and>
     (workers s w = TExited \<longrightarrow> workers s1 w = TExited)"
  by (auto simp: workerStep_def continue_not_TExited
      split: task.splits list.splits effect.splits if_splits)

lemma workerReceive_exited:
  assumes "workerReceive E w2 s = Some s1"
  shows "consumer s1 = consumer s \<and> (workers s w = TExited \<longrightarrow> workers s1 w = TExited) \<and>
         (workers s w \<noteq> TExited \<longrightarrow> workers s1 w = TExited \<longrightarrow>
            w2 = w \<and> workers s w = TIdle \<and> closed (queue s w) \<and> buf (queue s w) = [] \<and>
            queue s1 = queue s)"
  using assms
  by (auto simp: workerReceive_def continue_not_TExited
      split: task.splits list.splits if_splits)

lemma senderReceive_workers:
  "senderReceive E s = Some s1 \<Longrightarrow> workers s1 = workers s \<and> consumer s1 = consumer s"
  by (auto simp: senderReceive_def senderTake_fields split: if_splits list.splits)

lemma fire_exit:
  assumes "fire E a s = Some s1"
  shows "(consumer s = TExited \<longrightarrow> consumer s1 = TExited) \<and>
         (workers s w = TExited \<longrightarrow> workers s1 w = TExited) \<and>
         (workers s w \<noteq> TExited \<longrightarrow> workers s1 w = TExited \<longrightarrow>
            a = Receive w \<and> workers s w = TIdle \<and> closed (queue s w) \<and>
            buf (queue s w) = [] \<and> queue s1 = queue s)"
proof -
  from assms have alive: "crashed s = None"
    by (simp add: fire_def split: if_splits)
  show ?thesis
  proof (cases a)
    case Signal
    with assms alive show ?thesis by (auto simp: fire_def)
  next
    case Main
    with assms alive have "mainStep s = Some s1" by (simp add: fire_def)
    from mainStep_workers [OF this] Main show ?thesis by simp
  next
    case Fetch
    with assms alive show ?thesis
      by (auto simp: fire_def split: task.splits list.splits)
  next
    case ConsumerStep
    with assms alive have "consumerStep s = Some s1" by (simp add: fire_def)
    from consumerStep_workers [OF this] consumerStep_consumer [OF this] ConsumerStep
    show ?thesis by simp
  next
    case ConsumerReturn
    with assms alive show ?thesis by (auto simp: fire_def split: if_splits)
  next
    case (Receive w2)
    with assms alive have "workerReceive E w2 s = Some s1" by (simp add: fire_def)
    from workerReceive_exited [OF this, of w] Receive show ?thesis by auto
  next
    case (WorkerStep w2)
    with assms alive have "workerStep w2 s = Some s1" by (simp add: fire_def)
    from workerStep_exited [OF this, of w] WorkerStep show ?thesis by auto
  next
    case SenderReceive
    with assms alive have "senderReceive E s = Some s1" by (simp add: fire_def)
    from senderReceive_workers [OF this] SenderReceive show ?thesis by simp
  next
    case SenderTick
    with assms alive show ?thesis
      by (auto simp: fire_def senderTake_fields split: if_splits)
  next
    case SenderDone
    with assms alive show ?thesis
      by (auto simp: fire_def senderTake_fields split: if_splits)
  qed
qed


lemma shutdownInv_facts:
  assumes "shutdownInv s"
  shows "3 \<le> rank (pc s) \<longrightarrow> consumer s = TExited"
    and "closed (chSend s) \<longrightarrow> 8 \<le> rank (pc s)"
    and "crashed s \<noteq> Some SendOnClosedChannel"
    and "\<not> list_ex is_Panic (pending (consumer s))"
    and "workerInv s AWS 4" and "workerInv s Azure 5" and "workerInv s GCP 6"
  using assms by (simp_all add: shutdownInv_def)

lemma shutdownInv_closed_queue:
  assumes "shutdownInv s" and "closed (queue s w)"
  shows "4 \<le> rank (pc s)"
  using shutdownInv_facts(5-7) [OF assms(1)] assms(2)
  by (cases w) (auto simp: workerInv_def)


lemma shutdownInv_workers_done:
  assumes "shutdownInv s" and "7 \<le> rank (pc s)"
  shows "workers s w = TExited"
  using shutdownInv_facts(5-7) [OF assms(1)] assms(2)
  by (cases w) (auto simp: workerInv_def)

text \<open>
  C7. In every state the process reaches from its start, under every interleaving: a
  provider channel is closed only when the consumer goroutine (the only sender on the
  provider channels, inside \<open>kafka.Consume\<close>) has returned and has no send left;
  \<open>chSend\<close> is closed only when the three workers (its only senders) have left their
  loops; a goroutine that has returned stays returned; and no send ever hits a closed
  channel.
\<close>

theorem shutdown_ordering:
  assumes "run E as (initial ms) = Some s"
  shows "(closed (queue s w) \<longrightarrow> consumer s = TExited \<and> pending (consumer s) = []) \<and>
         (closed (chSend s) \<longrightarrow>
            workers s AWS = TExited \<and> workers s Azure = TExited \<and> workers s GCP = TExited) \<and>
         crashed s \<noteq> Some SendOnClosedChannel \<and>
         (\<forall>a s1. fire E a s = Some s1 \<longrightarrow>
            (consumer s = TExited \<longrightarrow> consumer s1 = TExited) \<and>
            (workers s w = TExited \<longrightarrow> workers s1 w = TExited) \<and>
            crashed s1 \<noteq> Some SendOnClosedChannel)"
proof -
  note inv = shutdownInv_reachable [OF assms]
  have a: "closed (queue s w) \<longrightarrow> consumer s = TExited \<and> pending (consumer s) = []"
  proof
    assume "closed (queue s w)"
    from shutdownInv_closed_queue [OF inv this] shutdownInv_facts(1) [OF inv]
    show "consumer s = TExited \<and> pending (consumer s) = []"
      by simp
  qed
  have b: "closed (chSend s) \<longrightarrow>
      workers s AWS = TExited \<and> workers s Azure = TExited \<and> workers s GCP = TExited"
  proof
    assume "closed (chSend s)"
    with shutdownInv_facts(2) [OF inv] have "7 \<le> rank (pc s)"
      by simp
    from shutdownInv_workers_done [OF inv this]
    show "workers s AWS = TExited \<and> workers s Azure = TExited \<and> workers s GCP = TExited"
      by simp
  qed
  have c: "crashed s \<noteq> Some SendOnClosedChannel"
    by (rule shutdownInv_facts(3) [OF inv])
  have d: "\<forall>a s1. fire E a s = Some s1 \<longrightarrow>
      (consumer s = TExited \<longrightarrow> consumer s1 = TExited) \<and>
      (workers s w = TExited \<longrightarrow> workers s1 w = TExited) \<and>
      crashed s1 \<noteq> Some SendOnClosedChannel"
  proof (intro allI impI)
    fix a s1
    assume f: "fire E a s = Some s1"
    have "crashed s1 \<noteq> Some SendOnClosedChannel"
      by (rule shutdownInv_facts(3) [OF shutdownInv_fire [OF inv f]])
    with fire_exit [OF f, of w]
    show "(consumer s = TExited \<longrightarrow> consumer s1 = TExited) \<and>
      (workers s w = TExited \<longrightarrow> workers s1 w = TExited) \<and>
      crashed s1 \<noteq> Some SendOnClosedChannel"
      by simp
  qed
  show ?thesis
    by (rule conjI [OF a conjI [OF b conjI [OF c d]]])
qed

lemma lossSchedule_run:
  "\<exists>s. run env0 lossSchedule (initial [''1'']) = Some s \<and> pc s = MStopped \<and>
       crashed s = None \<and> sender s = SExited \<and> consumer s = TExited \<and>
       workers s AWS = TExited \<and> workers s Azure = TExited \<and> workers s GCP = TExited \<and>
       closed (queue s AWS) \<and> closed (queue s Azure) \<and> closed (queue s GCP) \<and>
       buf (queue s AWS) = [] \<and> closed (chSend s) \<and>
       buf (chSend s) = [result ''app1'' StatusAvaliable None] \<and>
       transmitted (observed s) = []"
  by (simp add: lossSchedule_def initial_def fire_def env0_def processMessage_def dispatch_def
      auth_def continue_def consumerStep_def workerStep_def workerReceive_def mainStep_def
      senderTake_def checkAWS_def newSourceResult_def result_def emptyChan_def
      ChannelBuffer_def Let_def)

theorem shutdown_ordering_witness:
  "\<exists>s. run env0 lossSchedule (initial [''1'']) = Some s \<and>
       closed (queue s AWS) \<and> closed (chSend s) \<and> consumer s = TExited \<and>
       workers s GCP = TExited \<and> crashed s \<noteq> Some SendOnClosedChannel"
proof -
  from lossSchedule_run obtain s where r: "run env0 lossSchedule (initial [''1'']) = Some s"
    and c: "closed (queue s AWS)" "closed (chSend s)"
    by blast
  from shutdown_ordering [OF r, of AWS] c
  have "consumer s = TExited \<and> workers s GCP = TExited \<and> crashed s \<noteq> Some SendOnClosedChannel"
    by simp
  with r c show ?thesis
    by (intro exI [of _ s]) simp
qed



text \<open>
  C1. The claim fails on the code. \<open>sendResults\<close> is started with \<open>cancelCtx\<close> (line 347),
  which line 358 cancels as the first step of the shutdown, and its select returns on
  \<open>ctx.Done()\<close> (lines 246-258) without reading \<open>chSend\<close>; it has no case for the closing of
  \<open>chSend\<close>. In the schedule below one request is processed, its result is on \<open>chSend\<close>
  when the signal arrives, the sender takes \<open>ctx.Done()\<close> with an empty buffer, and
  \<open>main\<close> runs the whole sequence to its end: the result is still on \<open>chSend\<close> and
  nothing was transmitted.
\<close>

theorem shutdown_loses_queued_result:
  "(\<exists>s0. run env0 (take 7 lossSchedule) (initial [''1'']) = Some s0 \<and> pc s0 = MSelect \<and>
       \<not> signalled s0 \<and> \<not> cancelled s0 \<and>
       buf (chSend s0) = [result ''app1'' StatusAvaliable None]) \<and>
   (\<exists>s. run env0 lossSchedule (initial [''1'']) = Some s \<and> pc s = MStopped \<and>
       crashed s = None \<and> sender s = SExited \<and>
       buf (chSend s) = [result ''app1'' StatusAvaliable None] \<and>
       transmitted (observed s) = [])"
  by (simp add: lossSchedule_def initial_def fire_def env0_def processMessage_def dispatch_def
      auth_def continue_def consumerStep_def workerStep_def workerReceive_def mainStep_def
      senderTake_def checkAWS_def newSourceResult_def result_def emptyChan_def
      ChannelBuffer_def Let_def)

end
